theory Spec2Isabelle
  imports Main "HOL-Library.Multiset" "HOL-Library.Word"
begin

section \<open>Strings and the key normalizer\<close>

text \<open>
  A JavaScript string is modelled as a \<^typ>\<open>string\<close> whose characters are the code
  units U+0000 to U+00FF (the Latin-1 range); a name that may be \<open>undefined\<close> or
  \<open>null\<close> is a \<^typ>\<open>string option\<close>, with \<open>None\<close> for the absent value.  On this
  range \<open>String.prototype.trim\<close> strips TAB, LF, VT, FF, CR, SPACE and NBSP, and
  \<open>String.prototype.toLowerCase\<close> maps A-Z and the capital letters U+00C0 to U+00DE
  (without the multiplication sign U+00D7) to the code unit 32 higher.
\<close>

definition isWhiteSpace :: "char \<Rightarrow> bool" where
  "isWhiteSpace c = ((of_char c :: nat) \<in> {9, 10, 11, 12, 13, 32, 160})"

definition trim :: "string \<Rightarrow> string" where
  "trim s = rev (dropWhile isWhiteSpace (rev (dropWhile isWhiteSpace s)))"

definition toLowerChar :: "char \<Rightarrow> char" where
  "toLowerChar c =
     (let n = (of_char c :: nat)
      in if (65 \<le> n \<and> n \<le> 90) \<or> (192 \<le> n \<and> n \<le> 222 \<and> n \<noteq> 215)
         then char_of (n + 32) else c)"

definition toLowerCase :: "string \<Rightarrow> string" where
  "toLowerCase s = map toLowerChar s"

text \<open>
  \<open>truthy\<close> is JavaScript's truthiness of a value that is a string or absent;
  \<open>orString name d\<close> is the expression \<open>name || d\<close> for a string default \<open>d\<close>.
\<close>

definition truthy :: "string option \<Rightarrow> bool" where
  "truthy name = (case name of None \<Rightarrow> False | Some s \<Rightarrow> s \<noteq> [])"

definition orString :: "string option \<Rightarrow> string \<Rightarrow> string" where
  "orString name d = (case name of None \<Rightarrow> d | Some s \<Rightarrow> if s = [] then d else s)"

definition normalizeBlockName :: "string option \<Rightarrow> string" where
  "normalizeBlockName name = toLowerCase (trim (orString name []))"

section \<open>Severity classifier\<close>

record thresholds_cfg =
  lowMax :: nat
  mediumMax :: nat

definition thresholds :: thresholds_cfg where
  "thresholds = \<lparr>lowMax = 3, mediumMax = 5\<rparr>"

definition getSeverity :: "nat \<Rightarrow> string" where
  "getSeverity cnt =
     (if cnt \<le> lowMax thresholds then ''low''
      else if cnt \<le> mediumMax thresholds then ''medium''
      else ''high'')"

section \<open>Data model\<close>

text \<open>
  A coordinate is an IEEE binary64 number, given by its 64 bits.  The aggregator, the
  lookup view and the selection store the coordinates of a record and compute nothing
  with them; the floating-point arithmetic of the map centre is not part of this model.
\<close>

type_synonym float64 = "64 word"

record complaint =
  id' :: nat
  block :: "string option"
  grievance :: string
  lat :: float64
  lng :: float64

text \<open>
  A boundary feature carries a \<open>properties\<close> object (possibly absent) whose own
  properties are listed with their string values; the geometry plays no part in the
  aggregation.  The dataset itself may be absent, and so may its \<open>features\<close> array.
\<close>

record feature =
  properties :: "(string \<times> string) list option"

record geojson =
  features :: "feature list option"

definition BLOCK_NAME_PROP :: string where
  "BLOCK_NAME_PROP = ''block_name''"

text \<open>\<open>rawNameOf f\<close> is the expression \<open>f.properties?.[BLOCK_NAME_PROP]\<close>.\<close>

definition rawNameOf :: "feature \<Rightarrow> string option" where
  "rawNameOf f = (case properties f of None \<Rightarrow> None | Some ps \<Rightarrow> map_of ps BLOCK_NAME_PROP)"

text \<open>\<open>featuresOf g\<close> is the expression \<open>blocksGeoJson?.features || []\<close>.\<close>

definition featuresOf :: "geojson option \<Rightarrow> feature list" where
  "featuresOf g =
     (case g of None \<Rightarrow> []
      | Some gj \<Rightarrow> (case features gj of None \<Rightarrow> [] | Some fs \<Rightarrow> fs))"

record stats =
  key :: string
  label :: "string option"
  total :: nat
  complaints :: "complaint list"

section \<open>The insertion-ordered table\<close>

text \<open>
  The \<open>Map\<close> of the aggregator is an association list in insertion order.  \<open>mapSet\<close>
  replaces the value of a present key in place and appends a new key at the end;
  \<open>mapUpdate\<close> is the mutation of the object stored under a key through the reference
  that \<open>map.get(key)\<close> returns.  The aggregator reads an entry only after
  \<open>map.has(key)\<close> held or \<open>map.set(key, ...)\<close> ran, so \<open>mapUpdate\<close> is never applied
  to a missing key (where it leaves the table as it is).
\<close>

type_synonym table = "(string \<times> stats) list"

definition mapHas :: "table \<Rightarrow> string \<Rightarrow> bool" where
  "mapHas m k = (map_of m k \<noteq> None)"

fun mapSet :: "table \<Rightarrow> string \<Rightarrow> stats \<Rightarrow> table" where
  "mapSet [] k v = [(k, v)]"
| "mapSet ((k', v') # m) k v = (if k' = k then (k, v) # m else (k', v') # mapSet m k v)"

fun mapUpdate :: "table \<Rightarrow> string \<Rightarrow> (stats \<Rightarrow> stats) \<Rightarrow> table" where
  "mapUpdate [] k f = []"
| "mapUpdate ((k', v') # m) k f = (if k' = k then (k', f v') # m else (k', v') # mapUpdate m k f)"

definition mapValues :: "table \<Rightarrow> stats list" where
  "mapValues m = map snd m"

section \<open>Region aggregator\<close>

definition pass1_step :: "table \<Rightarrow> complaint \<Rightarrow> table" where
  "pass1_step m c =
     (let k = normalizeBlockName (block c)
      in if k = [] then m
         else let m1 = (if \<not> mapHas m k
                        then mapSet m k \<lparr>key = k, label = block c, total = 0, complaints = []\<rparr>
                        else m)
              in mapUpdate m1 k
                   (\<lambda>entry. entry\<lparr>total := total entry + 1,
                                  complaints := complaints entry @ [c]\<rparr>))"

definition pass1 :: "complaint list \<Rightarrow> table \<Rightarrow> table" where
  "pass1 cs m = foldl pass1_step m cs"

definition pass2_step :: "table \<Rightarrow> feature \<Rightarrow> table" where
  "pass2_step m f =
     (let rawName = rawNameOf f;
          k = normalizeBlockName rawName
      in if k = [] then m
         else if \<not> mapHas m k
              then mapSet m k \<lparr>key = k, label = Some (orString rawName ''Unknown block''),
                               total = 0, complaints = []\<rparr>
              else mapUpdate m k
                     (\<lambda>entry. if truthy rawName then entry\<lparr>label := rawName\<rparr> else entry))"

definition pass2 :: "feature list \<Rightarrow> table \<Rightarrow> table" where
  "pass2 fs m = foldl pass2_step m fs"

text \<open>
  The comparator \<open>(a, b) => b.total - a.total || a.label.localeCompare(b.label)\<close>.
  \<open>localeCompare\<close> belongs to the host and is a parameter \<open>lc\<close> of the model.  Calling
  it on an \<open>undefined\<close> label throws a \<open>TypeError\<close>; an \<open>undefined\<close> argument is
  converted to the string \<open>undefined\<close>.
\<close>

datatype error = TypeError

definition compareStats :: "(string \<Rightarrow> string \<Rightarrow> int) \<Rightarrow> stats \<Rightarrow> stats \<Rightarrow> error + int" where
  "compareStats lc a b =
     (if int (total b) - int (total a) \<noteq> 0 then Inr (int (total b) - int (total a))
      else (case label a of
              None \<Rightarrow> Inl TypeError
            | Some la \<Rightarrow> Inr (lc la (case label b of None \<Rightarrow> ''undefined'' | Some lb \<Rightarrow> lb))))"

text \<open>
  \<open>Array.prototype.sort\<close> is stable and, for a consistent comparator, returns the one
  stable sorted arrangement; it is modelled as an insertion sort that places an element
  before the first later element it does not compare greater than.  A \<open>TypeError\<close> of
  the comparator ends the sort.  Which pairs the host compares is its own choice; the
  choice shows only when a comparison fails or the comparator is inconsistent.
\<close>

fun insertSorted :: "(string \<Rightarrow> string \<Rightarrow> int) \<Rightarrow> stats \<Rightarrow> stats list \<Rightarrow> error + stats list" where
  "insertSorted lc x [] = Inr [x]"
| "insertSorted lc x (y # ys) =
     (case compareStats lc x y of
        Inl e \<Rightarrow> Inl e
      | Inr r \<Rightarrow> if r \<le> 0 then Inr (x # y # ys)
                 else (case insertSorted lc x ys of
                         Inl e \<Rightarrow> Inl e
                       | Inr zs \<Rightarrow> Inr (y # zs)))"

fun sortStats :: "(string \<Rightarrow> string \<Rightarrow> int) \<Rightarrow> stats list \<Rightarrow> error + stats list" where
  "sortStats lc [] = Inr []"
| "sortStats lc (x # xs) =
     (case sortStats lc xs of Inl e \<Rightarrow> Inl e | Inr ys \<Rightarrow> insertSorted lc x ys)"

definition statsByBlock ::
    "(string \<Rightarrow> string \<Rightarrow> int) \<Rightarrow> complaint list \<Rightarrow> geojson option \<Rightarrow> error + stats list" where
  "statsByBlock lc cs blocksGeoJson =
     sortStats lc (mapValues (pass2 (featuresOf blocksGeoJson) (pass1 cs [])))"

section \<open>Lookup view and selection\<close>

text \<open>
  The lookup view \<open>statsMap\<close> is a plain object literal \<open>{}\<close> filled by
  \<open>m[b.key] = b\<close>, so its prototype is \<open>Object.prototype\<close>.  Reading \<open>m[k]\<close> finds
  an own property first and then walks the prototype chain; writing \<open>m["__proto__"]\<close>
  runs the inherited setter, which makes the assigned entry the prototype of \<open>m\<close> and
  creates no own property.  \<open>protoEntry\<close> is \<open>None\<close> while the prototype is
  \<open>Object.prototype\<close> itself and \<open>Some b\<close> once the entry \<open>b\<close> has been put in front
  of it.
\<close>

datatype jsvalue =
    Null
  | Undefined
  | StatsObject stats
  | ObjectPrototype
  | BuiltinFunction string
  | StringValue string
  | NumberValue nat
  | ArrayValue "complaint list"

record jsobject =
  ownProps :: "(string \<times> stats) list"
  protoEntry :: "stats option"

definition emptyObject :: jsobject where
  "emptyObject = \<lparr>ownProps = [], protoEntry = None\<rparr>"

text \<open>The function-valued properties of \<open>Object.prototype\<close>.\<close>

definition objectPrototypeFunctions :: "string list" where
  "objectPrototypeFunctions =
     [''constructor'', ''hasOwnProperty'', ''isPrototypeOf'', ''propertyIsEnumerable'',
      ''toLocaleString'', ''toString'', ''valueOf'',
      ''__defineGetter__'', ''__defineSetter__'', ''__lookupGetter__'', ''__lookupSetter__'']"

definition setProp :: "jsobject \<Rightarrow> string \<Rightarrow> stats \<Rightarrow> jsobject" where
  "setProp m k b =
     (if k = ''__proto__'' then m\<lparr>protoEntry := Some b\<rparr>
      else m\<lparr>ownProps := mapSet (ownProps m) k b\<rparr>)"

definition objectPrototypeProp :: "jsobject \<Rightarrow> string \<Rightarrow> jsvalue" where
  "objectPrototypeProp m k =
     (if k = ''__proto__''
      then (case protoEntry m of None \<Rightarrow> ObjectPrototype | Some b \<Rightarrow> StatsObject b)
      else if k \<in> set objectPrototypeFunctions then BuiltinFunction k
      else Undefined)"

definition getProp :: "jsobject \<Rightarrow> string \<Rightarrow> jsvalue" where
  "getProp m k =
     (case map_of (ownProps m) k of
        Some b \<Rightarrow> StatsObject b
      | None \<Rightarrow>
          (case protoEntry m of
             None \<Rightarrow> objectPrototypeProp m k
           | Some b \<Rightarrow>
               if k = ''key'' then StringValue (key b)
               else if k = ''label''
                    then (case label b of None \<Rightarrow> Undefined | Some s \<Rightarrow> StringValue s)
               else if k = ''total'' then NumberValue (total b)
               else if k = ''complaints'' then ArrayValue (complaints b)
               else objectPrototypeProp m k))"

definition isTruthy :: "jsvalue \<Rightarrow> bool" where
  "isTruthy v =
     (case v of
        Null \<Rightarrow> False
      | Undefined \<Rightarrow> False
      | StringValue s \<Rightarrow> s \<noteq> []
      | NumberValue n \<Rightarrow> n \<noteq> 0
      | _ \<Rightarrow> True)"

definition statsMap :: "stats list \<Rightarrow> jsobject" where
  "statsMap bs = foldl (\<lambda>m b. setProp m (key b) b) emptyObject bs"

text \<open>
  \<open>selected\<close> is \<open>selectedBlockKey ? statsMap[selectedBlockKey] || null : null\<close>, with
  the selection slot holding \<open>null\<close> (\<open>None\<close>) or a key; the detail modal is rendered
  by \<open>selected && (...)\<close>.
\<close>

definition selected :: "jsobject \<Rightarrow> string option \<Rightarrow> jsvalue" where
  "selected sm selectedBlockKey =
     (case selectedBlockKey of
        None \<Rightarrow> Null
      | Some k \<Rightarrow>
          if k = [] then Null
          else (let v = getProp sm k in if isTruthy v then v else Null))"

definition modalRendered :: "jsvalue \<Rightarrow> bool" where
  "modalRendered sel = isTruthy sel"

text \<open>
  The click handler that \<open>onEachFeature\<close> attaches to a polygon stores the normalized
  name of \<open>feature.properties?.[BLOCK_NAME_PROP] || ""\<close> in the selection slot.
\<close>

definition onEachFeature_key :: "feature \<Rightarrow> string" where
  "onEachFeature_key f = normalizeBlockName (Some (orString (rawNameOf f) []))"

definition onEachFeature_click :: "feature \<Rightarrow> string option \<Rightarrow> string option" where
  "onEachFeature_click f selectedBlockKey = Some (onEachFeature_key f)"

section \<open>Comparators\<close>

text \<open>
  A comparator is consistent when it orders the strings into totally ordered classes:
  it is reflexive, swapping the arguments swaps the sign, and \<open>\<le>\<close> is transitive.
\<close>

definition consistentCompare :: "(string \<Rightarrow> string \<Rightarrow> int) \<Rightarrow> bool" where
  "consistentCompare lc \<longleftrightarrow>
     (\<forall>x. lc x x = 0) \<and>
     (\<forall>x y. (lc x y < 0) = (0 < lc y x)) \<and>
     (\<forall>x y z. lc x y \<le> 0 \<and> lc y z \<le> 0 \<longrightarrow> lc x z \<le> 0)"

text \<open>
  One consistent comparator, used to instantiate the results below: the order of the
  code units, position by position, a proper prefix first.
\<close>

fun codeUnitCompare :: "string \<Rightarrow> string \<Rightarrow> int" where
  "codeUnitCompare [] [] = 0"
| "codeUnitCompare [] (y # ys) = - 1"
| "codeUnitCompare (x # xs) [] = 1"
| "codeUnitCompare (x # xs) (y # ys) =
     (if (of_char x :: nat) < of_char y then - 1
      else if (of_char y :: nat) < of_char x then 1
      else codeUnitCompare xs ys)"

text \<open>
  The order the sorted output is claimed to have, between an entry and its successor:
  a larger total first, and for equal totals the label that does not compare greater.
\<close>

definition inOrder :: "(string \<Rightarrow> string \<Rightarrow> int) \<Rightarrow> stats \<Rightarrow> stats \<Rightarrow> bool" where
  "inOrder lc a b \<longleftrightarrow>
     total a > total b \<or>
     (total a = total b \<and>
      (case (label a, label b) of (Some la, Some lb) \<Rightarrow> lc la lb \<le> 0 | _ \<Rightarrow> False))"

text \<open>Sample inputs: a grievance record and a boundary feature with the given name.\<close>

definition record_of :: "nat \<Rightarrow> string \<Rightarrow> complaint" where
  "record_of i b = \<lparr>id' = i, block = Some b, grievance = [], lat = 0, lng = 0\<rparr>"

definition feature_of :: "string \<Rightarrow> feature" where
  "feature_of n = \<lparr>properties = Some [(BLOCK_NAME_PROP, n)]\<rparr>"

text \<open>
  The records and the features of one region: those whose normalized name is the key.
\<close>

definition recordsOf :: "string \<Rightarrow> complaint list \<Rightarrow> complaint list" where
  "recordsOf k cs = filter (\<lambda>c. normalizeBlockName (block c) = k) cs"

definition featuresNamed :: "string \<Rightarrow> feature list \<Rightarrow> feature list" where
  "featuresNamed k fs = filter (\<lambda>f. normalizeBlockName (rawNameOf f) = k) fs"

text \<open>
  Eleven records for three regions, the one with a single record first.
\<close>

definition orderingRecords :: "complaint list" where
  "orderingRecords =
     [record_of 1 ''Zeta'',
      record_of 2 ''Alpha'', record_of 3 ''Alpha'', record_of 4 ''Alpha'',
      record_of 5 ''Alpha'', record_of 6 ''Alpha'',
      record_of 7 ''Beta'', record_of 8 ''Beta'', record_of 9 ''Beta'',
      record_of 10 ''Beta'', record_of 11 ''Beta'']"

text \<open>
  Four records of which two have no usable name: one without a block and one whose
  block is blank.
\<close>

definition conservationRecords :: "complaint list" where
  "conservationRecords =
     [record_of 1 ''Sadar'',
      \<lparr>id' = 2, block = None, grievance = [], lat = 0, lng = 0\<rparr>,
      record_of 3 ''  '',
      record_of 4 '' sadar'']"


section \<open>Properties of the normalizer and of the table operations\<close>

lemma normalizeBlockName_absent: "normalizeBlockName None = []"
  by (simp add: normalizeBlockName_def orString_def trim_def toLowerCase_def)

lemma normalizeBlockName_empty: "normalizeBlockName (Some []) = []"
  by (simp add: normalizeBlockName_def orString_def trim_def toLowerCase_def)

lemma normalizeBlockName_nonempty:
  assumes "normalizeBlockName r \<noteq> []"
  shows "\<exists>s. r = Some s \<and> s \<noteq> []"
proof (cases r)
  case None
  with assms show ?thesis by (simp add: normalizeBlockName_absent)
next
  case (Some s)
  with assms have "s \<noteq> []" by (auto simp: normalizeBlockName_empty)
  with Some show ?thesis by simp
qed

lemma orString_present: "s \<noteq> [] \<Longrightarrow> orString (Some s) d = s"
  by (simp add: orString_def)

lemma map_of_mapSet: "map_of (mapSet m k v) = (map_of m)(k \<mapsto> v)"
  by (induction m) (auto simp: fun_eq_iff)

lemma keys_mapSet:
  "map fst (mapSet m k v) = (if k \<in> set (map fst m) then map fst m else map fst m @ [k])"
proof (induction m)
  case Nil
  show ?case by simp
next
  case (Cons p m)
  obtain k' v' where p: "p = (k', v')" by (cases p)
  show ?case using Cons by (cases "k' = k") (auto simp: p)
qed

lemma map_of_mapUpdate:
  "map_of (mapUpdate m k f) =
     (case map_of m k of None \<Rightarrow> map_of m | Some e \<Rightarrow> (map_of m)(k \<mapsto> f e))"
  by (induction m) (auto simp: fun_eq_iff split: option.splits)

lemma keys_mapUpdate: "map fst (mapUpdate m k f) = map fst m"
  by (induction m) auto

lemma keys_pass1_step:
  "map fst (pass1_step m c) =
     (let k = normalizeBlockName (block c)
      in if k = [] \<or> k \<in> set (map fst m) then map fst m else map fst m @ [k])"
  by (auto simp: pass1_step_def Let_def keys_mapUpdate keys_mapSet mapHas_def map_of_eq_None_iff)

lemma keys_pass2_step:
  "map fst (pass2_step m f) =
     (let k = normalizeBlockName (rawNameOf f)
      in if k = [] \<or> k \<in> set (map fst m) then map fst m else map fst m @ [k])"
  by (auto simp: pass2_step_def Let_def keys_mapUpdate keys_mapSet mapHas_def map_of_eq_None_iff)

lemma distinct_pass1: "distinct (map fst m) \<Longrightarrow> distinct (map fst (pass1 cs m))"
  unfolding pass1_def
  by (induction cs arbitrary: m) (auto simp: keys_pass1_step Let_def)

lemma distinct_pass2: "distinct (map fst m) \<Longrightarrow> distinct (map fst (pass2 fs m))"
  unfolding pass2_def
  by (induction fs arbitrary: m) (auto simp: keys_pass2_step Let_def)

lemma pass1_snoc: "pass1 (cs @ [c]) m = pass1_step (pass1 cs m) c"
  by (simp add: pass1_def)

lemma pass2_snoc: "pass2 (fs @ [f]) m = pass2_step (pass2 fs m) f"
  by (simp add: pass2_def)


lemma recordsOf_snoc:
  "recordsOf k (cs @ [c]) = recordsOf k cs @ (if normalizeBlockName (block c) = k then [c] else [])"
  by (simp add: recordsOf_def)

lemma featuresNamed_snoc:
  "featuresNamed k (fs @ [f]) =
     featuresNamed k fs @ (if normalizeBlockName (rawNameOf f) = k then [f] else [])"
  by (simp add: featuresNamed_def)

lemma pass1_lookup:
  "map_of (pass1 cs []) k =
     (if k = [] \<or> recordsOf k cs = [] then None
      else Some \<lparr>key = k, label = block (hd (recordsOf k cs)),
                 total = length (recordsOf k cs), complaints = recordsOf k cs\<rparr>)"
proof (induction cs arbitrary: k rule: rev_induct)
  case Nil
  show ?case by (simp add: pass1_def recordsOf_def)
next
  case (snoc c cs)
  let ?k' = "normalizeBlockName (block c)"
  show ?case
  proof (cases "?k' = []")
    case True
    then show ?thesis
      by (auto simp: pass1_snoc pass1_step_def snoc.IH recordsOf_snoc)
  next
    case False
    show ?thesis
    proof (cases "recordsOf ?k' cs = []")
      case True
      with False show ?thesis
        by (simp add: pass1_snoc pass1_step_def Let_def mapHas_def snoc.IH recordsOf_snoc
            map_of_mapUpdate map_of_mapSet)
    next
      case nonempty: False
      with False show ?thesis
        by (simp add: pass1_snoc pass1_step_def Let_def mapHas_def snoc.IH recordsOf_snoc
            map_of_mapUpdate map_of_mapSet)
    qed
  qed
qed

lemma pass2_lookup:
  "map_of (pass2 fs m) k =
     (if k = [] \<or> featuresNamed k fs = [] then map_of m k
      else Some ((case map_of m k of
                    None \<Rightarrow> \<lparr>key = k, label = None, total = 0, complaints = []\<rparr>
                  | Some e \<Rightarrow> e)\<lparr>label := rawNameOf (last (featuresNamed k fs))\<rparr>))"
proof (induction fs arbitrary: k rule: rev_induct)
  case Nil
  show ?case by (simp add: pass2_def featuresNamed_def)
next
  case (snoc f fs)
  let ?k' = "normalizeBlockName (rawNameOf f)"
  show ?case
  proof (cases "?k' = []")
    case True
    then show ?thesis
      by (auto simp: pass2_snoc pass2_step_def snoc.IH featuresNamed_snoc)
  next
    case False
    then obtain s where s: "rawNameOf f = Some s" "s \<noteq> []"
      using normalizeBlockName_nonempty by blast
    show ?thesis
    proof (cases "map_of (pass2 fs m) ?k'")
      case None
      with False s show ?thesis
        by (auto simp: pass2_snoc pass2_step_def Let_def mapHas_def snoc.IH featuresNamed_snoc
            map_of_mapSet orString_present split: if_splits option.splits)
    next
      case (Some e)
      with False s show ?thesis
        by (auto simp: pass2_snoc pass2_step_def Let_def mapHas_def snoc.IH featuresNamed_snoc
            map_of_mapUpdate truthy_def split: if_splits option.splits)
    qed
  qed
qed

lemma table_lookup:
  "map_of (pass2 fs (pass1 cs [])) k =
     (if k = [] \<or> (recordsOf k cs = [] \<and> featuresNamed k fs = []) then None
      else Some \<lparr>key = k,
                 label = (if featuresNamed k fs = [] then block (hd (recordsOf k cs))
                          else rawNameOf (last (featuresNamed k fs))),
                 total = length (recordsOf k cs), complaints = recordsOf k cs\<rparr>)"
  by (simp add: pass2_lookup pass1_lookup)

section \<open>Properties of the sort\<close>

text \<open>
  The comparator fails only on an entry without a label, so a list of labelled entries is
  sorted without a \<open>TypeError\<close>, and the result is a rearrangement of the input.
\<close>

lemma compareStats_defined:
  "label a = Some la \<Longrightarrow>
   compareStats lc a b =
     Inr (if total b \<noteq> total a then int (total b) - int (total a)
          else lc la (case label b of None \<Rightarrow> ''undefined'' | Some lb \<Rightarrow> lb))"
  by (simp add: compareStats_def)

lemma insertSorted_permutes:
  "label x \<noteq> None \<Longrightarrow> \<exists>zs. insertSorted lc x ys = Inr zs \<and> mset zs = add_mset x (mset ys)"
proof (induction ys)
  case Nil
  show ?case by simp
next
  case (Cons y ys)
  from Cons.prems obtain la where la: "label x = Some la" by auto
  from Cons obtain zs where zs: "insertSorted lc x ys = Inr zs" "mset zs = add_mset x (mset ys)"
    by blast
  show ?case by (simp add: compareStats_defined [OF la] zs)
qed

lemma sortStats_permutes:
  "\<forall>x\<in>set xs. label x \<noteq> None \<Longrightarrow> \<exists>zs. sortStats lc xs = Inr zs \<and> mset zs = mset xs"
proof (induction xs)
  case Nil
  show ?case by simp
next
  case (Cons x xs)
  then obtain ys where ys: "sortStats lc xs = Inr ys" "mset ys = mset xs" by auto
  from Cons.prems have "label x \<noteq> None" by simp
  from insertSorted_permutes [OF this, of lc ys] ys show ?case by auto
qed

lemma insertSorted_hd:
  "insertSorted lc x ys = Inr zs \<Longrightarrow> zs \<noteq> [] \<and> (hd zs = x \<or> (ys \<noteq> [] \<and> hd zs = hd ys))"
  by (cases ys) (auto split: sum.splits if_splits)

lemma inOrder_of_le:
  assumes "label x = Some lx" "label y = Some ly"
      and "compareStats lc x y = Inr r" "r \<le> 0"
  shows "inOrder lc x y"
  using assms by (auto simp: compareStats_def inOrder_def split: if_splits)

lemma inOrder_of_gt:
  assumes "consistentCompare lc" "label x = Some lx" "label y = Some ly"
      and "compareStats lc x y = Inr r" "0 < r"
  shows "inOrder lc y x"
proof (cases "total y = total x")
  case True
  with assms have "0 < lc lx ly" by (simp add: compareStats_def)
  with assms(1) have "lc ly lx < 0" by (simp add: consistentCompare_def)
  with True assms show ?thesis by (simp add: inOrder_def)
next
  case False
  with assms show ?thesis by (auto simp: compareStats_def inOrder_def split: if_splits)
qed

lemma insertSorted_successively:
  assumes "consistentCompare lc" "label x \<noteq> None" "\<forall>y\<in>set ys. label y \<noteq> None"
      and "successively (inOrder lc) ys" "insertSorted lc x ys = Inr zs"
  shows "successively (inOrder lc) zs"
  using assms(3-5)
proof (induction ys arbitrary: zs)
  case Nil
  then show ?case by auto
next
  case (Cons y ys)
  from assms(2) obtain lx where lx: "label x = Some lx" by auto
  from Cons.prems(1) obtain ly where ly: "label y = Some ly" by auto
  obtain r where r: "compareStats lc x y = Inr r"
    using compareStats_defined [OF lx] by blast
  show ?case
  proof (cases "r \<le> 0")
    case True
    with Cons.prems r have "zs = x # y # ys" by simp
    with Cons.prems(2) inOrder_of_le [OF lx ly r True] show ?thesis by simp
  next
    case False
    with Cons.prems r obtain ws where ws: "insertSorted lc x ys = Inr ws" "zs = y # ws"
      by (auto split: sum.splits)
    from Cons.prems(2) have tl: "successively (inOrder lc) ys"
      by (auto simp: successively_Cons)
    from Cons.IH [OF _ tl ws(1)] Cons.prems(1) have sw: "successively (inOrder lc) ws" by simp
    from insertSorted_hd [OF ws(1)] have hd: "ws \<noteq> []" "hd ws = x \<or> (ys \<noteq> [] \<and> hd ws = hd ys)"
      by auto
    from False have "0 < r" by simp
    from inOrder_of_gt [OF assms(1) lx ly r this] have yx: "inOrder lc y x" .
    from hd(2) yx Cons.prems(2) have "inOrder lc y (hd ws)"
      by (auto simp: successively_Cons)
    with sw hd(1) ws(2) show ?thesis by (simp add: successively_Cons)
  qed
qed

lemma sortStats_successively:
  assumes "consistentCompare lc"
  shows "\<forall>x\<in>set xs. label x \<noteq> None \<Longrightarrow> sortStats lc xs = Inr zs \<Longrightarrow>
         successively (inOrder lc) zs"
proof (induction xs arbitrary: zs)
  case Nil
  then show ?case by simp
next
  case (Cons x xs)
  from Cons.prems(1) have defined: "\<forall>y\<in>set xs. label y \<noteq> None" and x: "label x \<noteq> None"
    by simp_all
  from sortStats_permutes [OF defined, of lc] obtain ys
    where ys: "sortStats lc xs = Inr ys" "mset ys = mset xs" by blast
  from ys(2) have "set ys = set xs" by (rule mset_eq_setD)
  with defined have dys: "\<forall>y\<in>set ys. label y \<noteq> None" by simp
  from Cons.prems(2) ys(1) have ins: "insertSorted lc x ys = Inr zs" by simp
  from insertSorted_successively [OF assms x dys Cons.IH [OF defined ys(1)] ins]
  show ?case .
qed

section \<open>The aggregated table\<close>

lemma distinct_table: "distinct (map fst (pass2 fs (pass1 cs [])))"
  by (simp add: distinct_pass1 distinct_pass2)

lemma table_entry_iff:
  "(k, e) \<in> set (pass2 fs (pass1 cs [])) \<longleftrightarrow> map_of (pass2 fs (pass1 cs [])) k = Some e"
  using distinct_table [of fs cs] by simp

lemma recordsOf_member: "c \<in> set (recordsOf k cs) \<Longrightarrow> c \<in> set cs \<and> normalizeBlockName (block c) = k"
  by (simp add: recordsOf_def)

lemma featuresNamed_member:
  "f \<in> set (featuresNamed k fs) \<Longrightarrow> f \<in> set fs \<and> normalizeBlockName (rawNameOf f) = k"
  by (simp add: featuresNamed_def)

lemma table_entry:
  assumes "(k, e) \<in> set (pass2 fs (pass1 cs []))"
  shows "k \<noteq> [] \<and> key e = k \<and> total e = length (recordsOf k cs) \<and> complaints e = recordsOf k cs
         \<and> (\<exists>s. label e = Some s \<and> s \<noteq> [])
         \<and> (featuresNamed k fs \<noteq> [] \<longrightarrow> label e = rawNameOf (last (featuresNamed k fs)))"
proof -
  from assms have look: "map_of (pass2 fs (pass1 cs [])) k = Some e"
    by (simp add: table_entry_iff)
  then have k: "k \<noteq> []" and ne: "recordsOf k cs \<noteq> [] \<or> featuresNamed k fs \<noteq> []"
    by (auto simp: table_lookup split: if_splits)
  from look k ne have e: "e = \<lparr>key = k,
                 label = (if featuresNamed k fs = [] then block (hd (recordsOf k cs))
                          else rawNameOf (last (featuresNamed k fs))),
                 total = length (recordsOf k cs), complaints = recordsOf k cs\<rparr>"
    by (auto simp: table_lookup split: if_splits)
  have "\<exists>s. label e = Some s \<and> s \<noteq> []"
  proof (cases "featuresNamed k fs = []")
    case True
    with ne have "hd (recordsOf k cs) \<in> set (recordsOf k cs)" by simp
    then have "normalizeBlockName (block (hd (recordsOf k cs))) = k"
      by (simp add: recordsOf_member)
    with k normalizeBlockName_nonempty show ?thesis by (simp add: e True)
  next
    case False
    then have "last (featuresNamed k fs) \<in> set (featuresNamed k fs)" by simp
    then have "normalizeBlockName (rawNameOf (last (featuresNamed k fs))) = k"
      by (simp add: featuresNamed_member)
    with k normalizeBlockName_nonempty show ?thesis by (simp add: e False)
  qed
  with k e show ?thesis by simp
qed

lemma table_has_key:
  assumes "k \<noteq> []" "recordsOf k cs \<noteq> [] \<or> featuresNamed k fs \<noteq> []"
  shows "\<exists>e. (k, e) \<in> set (pass2 fs (pass1 cs []))"
  using assms by (auto simp: table_entry_iff table_lookup)

lemma values_labelled: "\<forall>e\<in>set (mapValues (pass2 fs (pass1 cs []))). label e \<noteq> None"
proof
  fix e
  assume "e \<in> set (mapValues (pass2 fs (pass1 cs [])))"
  then obtain k where "(k, e) \<in> set (pass2 fs (pass1 cs []))"
    by (auto simp: mapValues_def)
  from table_entry [OF this] show "label e \<noteq> None" by auto
qed

lemma statsByBlock_result:
  "\<exists>out. statsByBlock lc cs g = Inr out \<and>
         mset out = mset (mapValues (pass2 (featuresOf g) (pass1 cs [])))"
  unfolding statsByBlock_def by (rule sortStats_permutes [OF values_labelled])

lemma output_entry:
  assumes "statsByBlock lc cs g = Inr out"
  shows "e \<in> set out \<longleftrightarrow> (key e, e) \<in> set (pass2 (featuresOf g) (pass1 cs []))"
proof -
  from statsByBlock_result [of lc cs g] assms
  have "mset out = mset (mapValues (pass2 (featuresOf g) (pass1 cs [])))" by auto
  then have "set out = set (mapValues (pass2 (featuresOf g) (pass1 cs [])))"
    by (rule mset_eq_setD)
  then have mem: "e \<in> set out \<longleftrightarrow> (\<exists>k. (k, e) \<in> set (pass2 (featuresOf g) (pass1 cs [])))"
    by (force simp: mapValues_def image_iff)
  show ?thesis
  proof
    assume "e \<in> set out"
    with mem obtain k where k: "(k, e) \<in> set (pass2 (featuresOf g) (pass1 cs []))" by blast
    from table_entry [OF k] have "key e = k" by simp
    with k show "(key e, e) \<in> set (pass2 (featuresOf g) (pass1 cs []))" by simp
  next
    assume "(key e, e) \<in> set (pass2 (featuresOf g) (pass1 cs []))"
    with mem show "e \<in> set out" by blast
  qed
qed

section \<open>Totals, multiplicities and the sample comparator\<close>

lemma codeUnitCompare_refl: "codeUnitCompare x x = 0"
  by (induction x) auto

lemma codeUnitCompare_swap: "(codeUnitCompare x y < 0) = (0 < codeUnitCompare y x)"
  by (induction x y rule: codeUnitCompare.induct) auto

lemma codeUnitCompare_trans:
  "codeUnitCompare x y \<le> 0 \<Longrightarrow> codeUnitCompare y z \<le> 0 \<Longrightarrow> codeUnitCompare x z \<le> 0"
proof (induction x y arbitrary: z rule: codeUnitCompare.induct)
  case 1
  then show ?case by simp
next
  case (2 y ys)
  then show ?case by (cases z) auto
next
  case (3 x xs)
  then show ?case by simp
next
  case (4 x xs y ys)
  show ?case
  proof (cases z)
    case Nil
    with "4.prems" show ?thesis by simp
  next
    case (Cons c cs)
    with "4.prems" "4.IH" [of cs] show ?thesis
      by (auto split: if_splits)
  qed
qed

lemma consistent_codeUnitCompare: "consistentCompare codeUnitCompare"
  unfolding consistentCompare_def
  using codeUnitCompare_refl codeUnitCompare_swap codeUnitCompare_trans by blast

lemma total_mapSet_new:
  "map_of m k = None \<Longrightarrow>
   sum_list (map (total \<circ> snd) (mapSet m k v)) = sum_list (map (total \<circ> snd) m) + total v"
  by (induction m) (auto split: if_splits)

lemma total_mapUpdate:
  "map_of m k = Some e \<Longrightarrow>
   sum_list (map (total \<circ> snd) (mapUpdate m k f)) + total e
     = sum_list (map (total \<circ> snd) m) + total (f e)"
  by (induction m) (auto split: if_splits)

lemma total_pass1_step:
  "sum_list (map (total \<circ> snd) (pass1_step m c)) =
     sum_list (map (total \<circ> snd) m) + (if normalizeBlockName (block c) = [] then 0 else 1)"
proof (cases "normalizeBlockName (block c) = []")
  case True
  then show ?thesis by (simp add: pass1_step_def)
next
  case False
  let ?k = "normalizeBlockName (block c)"
  let ?bump = "\<lambda>entry. entry\<lparr>total := total entry + 1, complaints := complaints entry @ [c]\<rparr>"
  show ?thesis
  proof (cases "map_of m ?k")
    case None
    let ?new = "\<lparr>key = ?k, label = block c, total = 0, complaints = []\<rparr>"
    have "map_of (mapSet m ?k ?new) ?k = Some ?new" by (simp add: map_of_mapSet)
    from total_mapUpdate [OF this, of ?bump] total_mapSet_new [OF None, of ?new]
    show ?thesis using False None by (simp add: pass1_step_def Let_def mapHas_def)
  next
    case (Some e)
    from total_mapUpdate [OF Some, of ?bump]
    show ?thesis using False Some by (simp add: pass1_step_def Let_def mapHas_def)
  qed
qed

lemma total_pass2_step:
  "sum_list (map (total \<circ> snd) (pass2_step m f)) = sum_list (map (total \<circ> snd) m)"
proof (cases "normalizeBlockName (rawNameOf f) = []")
  case True
  then show ?thesis by (simp add: pass2_step_def)
next
  case False
  let ?k = "normalizeBlockName (rawNameOf f)"
  show ?thesis
  proof (cases "map_of m ?k")
    case None
    from total_mapSet_new [OF None] show ?thesis
      using False None by (simp add: pass2_step_def Let_def mapHas_def)
  next
    case (Some e)
    from total_mapUpdate [OF Some, of "\<lambda>entry. if truthy (rawNameOf f) then entry\<lparr>label := rawNameOf f\<rparr> else entry"]
    show ?thesis using False Some
      by (cases "truthy (rawNameOf f)") (simp_all add: pass2_step_def Let_def mapHas_def)
  qed
qed

lemma total_pass1:
  "sum_list (map (total \<circ> snd) (pass1 cs m)) =
     sum_list (map (total \<circ> snd) m) + length (filter (\<lambda>c. normalizeBlockName (block c) \<noteq> []) cs)"
  unfolding pass1_def
  by (induction cs arbitrary: m) (simp_all add: total_pass1_step)

lemma total_pass2:
  "sum_list (map (total \<circ> snd) (pass2 fs m)) = sum_list (map (total \<circ> snd) m)"
  unfolding pass2_def
  by (induction fs arbitrary: m) (simp_all add: total_pass2_step)

lemma sum_list_permuted:
  fixes f :: "'a \<Rightarrow> nat"
  assumes "mset xs = mset ys"
  shows "sum_list (map f xs) = sum_list (map f ys)"
proof -
  have "sum_list (map f xs) = sum_mset (mset (map f xs))"
    by (simp only: sum_mset_sum_list)
  also have "\<dots> = sum_mset (image_mset f (mset xs))" by (simp only: mset_map)
  also have "\<dots> = sum_mset (image_mset f (mset ys))" by (simp only: assms)
  also have "\<dots> = sum_mset (mset (map f ys))" by (simp only: mset_map)
  also have "\<dots> = sum_list (map f ys)" by (simp only: sum_mset_sum_list)
  finally show ?thesis .
qed

lemma length_filter_permuted: "mset xs = mset ys \<Longrightarrow> length (filter P xs) = length (filter P ys)"
  by (metis mset_filter size_mset)

lemma distinct_key_once:
  "distinct (map fst m) \<Longrightarrow> (k, e) \<in> set m \<Longrightarrow> length (filter (\<lambda>p. fst p = k) m) = 1"
proof (induction m)
  case Nil
  then show ?case by simp
next
  case (Cons p m)
  show ?case
  proof (cases "fst p = k")
    case True
    with Cons.prems have "k \<notin> fst ` set m" by simp
    then have "\<forall>q\<in>set m. fst q \<noteq> k" by blast
    then have "filter (\<lambda>p. fst p = k) m = []" by (simp add: filter_empty_conv)
    with True show ?thesis by simp
  next
    case False
    with Cons show ?thesis by auto
  qed
qed

lemma normalizeBlockName_orString:
  "normalizeBlockName (Some (orString r [])) = normalizeBlockName r"
  by (simp add: normalizeBlockName_def orString_def split: option.splits)

section \<open>The lookup view on keys that inherit nothing\<close>

text \<open>
  When the table has no entry named \<open>__proto__\<close>, a key that is not in the table and
  names no member of \<open>Object.prototype\<close> resolves to \<open>null\<close>.
\<close>

lemma fill_keeps_missing:
  assumes "k \<notin> key ` set bs" and "''__proto__'' \<notin> key ` set bs"
      and "map_of (ownProps m) k = None" and "protoEntry m = None"
  shows "map_of (ownProps (foldl (\<lambda>m b. setProp m (key b) b) m bs)) k = None
       \<and> protoEntry (foldl (\<lambda>m b. setProp m (key b) b) m bs) = None"
  using assms
proof (induction bs arbitrary: m)
  case Nil
  then show ?case by simp
next
  case (Cons b bs)
  from Cons.prems have b: "key b \<noteq> k" "key b \<noteq> ''__proto__''" by auto
  have "map_of (ownProps (setProp m (key b) b)) k = None"
    using b Cons.prems(3) by (simp add: setProp_def map_of_mapSet)
  moreover have "protoEntry (setProp m (key b) b) = None"
    using b Cons.prems(4) by (simp add: setProp_def)
  moreover from Cons.prems have "k \<notin> key ` set bs" "''__proto__'' \<notin> key ` set bs" by auto
  ultimately show ?case using Cons.IH by simp
qed

lemma selected_missing_key:
  assumes "k \<notin> key ` set bs" and "''__proto__'' \<notin> key ` set bs"
      and "k \<noteq> ''__proto__''" and "k \<notin> set objectPrototypeFunctions"
  shows "selected (statsMap bs) (Some k) = Null"
proof -
  from fill_keeps_missing [OF assms(1,2), of emptyObject]
  have "map_of (ownProps (statsMap bs)) k = None" "protoEntry (statsMap bs) = None"
    by (simp_all add: statsMap_def emptyObject_def)
  with assms(3,4) have "getProp (statsMap bs) k = Undefined"
    by (simp add: getProp_def objectPrototypeProp_def)
  then show ?thesis by (simp add: selected_def isTruthy_def)
qed

section \<open>Properties of the specification\<close>

text \<open>
  C1.  A boundary feature processed in pass 2 whose normalized name is the key of an
  entry that pass 1 created from the grievance records overwrites the label of that
  entry with its raw name, which is never empty there.  In the output the entry for the
  region carries the raw name of the last such feature, and the count and the records of
  pass 1: the name in the boundary dataset wins over the free text of the records.
\<close>

theorem boundary_name_overwrites_label:
  assumes "c \<in> set cs" and "normalizeBlockName (block c) = k"
      and "f \<in> set (featuresOf g)" and "normalizeBlockName (rawNameOf f) = k"
      and "k \<noteq> []"
  shows "(\<forall>m e. map_of m k = Some e \<longrightarrow>
            map_of (pass2_step m f) k = Some (e\<lparr>label := rawNameOf f\<rparr>))
       \<and> (\<exists>s. rawNameOf f = Some s \<and> s \<noteq> [])
       \<and> (\<exists>out e. statsByBlock lc cs g = Inr out \<and> e \<in> set out \<and> key e = k \<and>
              label e = rawNameOf (last (featuresNamed k (featuresOf g))) \<and>
              total e = length (recordsOf k cs) \<and> complaints e = recordsOf k cs)"
proof -
  from assms(4,5) obtain s where s: "rawNameOf f = Some s" "s \<noteq> []"
    using normalizeBlockName_nonempty by blast
  have step: "\<forall>m e. map_of m k = Some e \<longrightarrow>
            map_of (pass2_step m f) k = Some (e\<lparr>label := rawNameOf f\<rparr>)"
    using assms(4,5) s
    by (simp add: pass2_step_def Let_def mapHas_def map_of_mapUpdate truthy_def)
  from assms(3,4) have named: "featuresNamed k (featuresOf g) \<noteq> []"
    by (auto simp: featuresNamed_def filter_empty_conv)
  from table_has_key [of k cs "featuresOf g"] assms(5) named
  obtain e where e: "(k, e) \<in> set (pass2 (featuresOf g) (pass1 cs []))" by blast
  from statsByBlock_result [of lc cs g] obtain out where out: "statsByBlock lc cs g = Inr out"
    by blast
  from table_entry [OF e] have facts: "key e = k" "total e = length (recordsOf k cs)"
    "complaints e = recordsOf k cs"
    "label e = rawNameOf (last (featuresNamed k (featuresOf g)))"
    using named by simp_all
  from e facts(1) have "e \<in> set out" by (simp add: output_entry [OF out])
  with out facts have "\<exists>out e. statsByBlock lc cs g = Inr out \<and> e \<in> set out \<and> key e = k \<and>
              label e = rawNameOf (last (featuresNamed k (featuresOf g))) \<and>
              total e = length (recordsOf k cs) \<and> complaints e = recordsOf k cs"
    by blast
  with step s show ?thesis by blast
qed

theorem boundary_name_overwrites_label_witness:
  "record_of 1 ''sadar'' \<in> set [record_of 1 ''sadar'']
   \<and> normalizeBlockName (block (record_of 1 ''sadar'')) = ''sadar''
   \<and> feature_of ''Sadar'' \<in> set (featuresOf (Some \<lparr>features = Some [feature_of ''Sadar'']\<rparr>))
   \<and> normalizeBlockName (rawNameOf (feature_of ''Sadar'')) = ''sadar''
   \<and> (\<exists>out e. statsByBlock codeUnitCompare [record_of 1 ''sadar'']
                  (Some \<lparr>features = Some [feature_of ''Sadar'']\<rparr>) = Inr out
               \<and> e \<in> set out \<and> key e = ''sadar'' \<and> label e = Some ''Sadar'')"
proof -
  let ?g = "Some \<lparr>features = Some [feature_of ''Sadar'']\<rparr>"
  have h1: "record_of 1 ''sadar'' \<in> set [record_of 1 ''sadar'']" by simp
  have h2: "normalizeBlockName (block (record_of 1 ''sadar'')) = ''sadar''" by code_simp
  have h3: "feature_of ''Sadar'' \<in> set (featuresOf ?g)" by (simp add: featuresOf_def)
  have h4: "normalizeBlockName (rawNameOf (feature_of ''Sadar'')) = ''sadar''" by code_simp
  have h5: "''sadar'' \<noteq> []" by simp
  have last: "rawNameOf (last (featuresNamed ''sadar'' (featuresOf ?g))) = Some ''Sadar''"
    by code_simp
  from boundary_name_overwrites_label [OF h1 h2 h3 h4 h5, of codeUnitCompare]
  have "\<exists>out e. statsByBlock codeUnitCompare [record_of 1 ''sadar''] ?g = Inr out
               \<and> e \<in> set out \<and> key e = ''sadar'' \<and> label e = Some ''Sadar''"
    unfolding last by blast
  with h1 h2 h3 h4 show ?thesis by blast
qed

text \<open>
  C2.  For a consistent \<open>localeCompare\<close> the aggregator returns its entries ordered by
  total, larger first, and ties by label, ascending: every entry and its successor are
  \<open>inOrder\<close>.
\<close>

theorem output_sorted:
  assumes "consistentCompare lc"
  shows "\<exists>out. statsByBlock lc cs g = Inr out \<and> successively (inOrder lc) out"
proof -
  from statsByBlock_result [of lc cs g] obtain out where out: "statsByBlock lc cs g = Inr out"
    by blast
  then have "sortStats lc (mapValues (pass2 (featuresOf g) (pass1 cs []))) = Inr out"
    by (simp add: statsByBlock_def)
  from sortStats_successively [OF assms values_labelled this] out show ?thesis by blast
qed

theorem output_sorted_witness:
  "consistentCompare codeUnitCompare
   \<and> (\<exists>out. statsByBlock codeUnitCompare orderingRecords None = Inr out
          \<and> successively (inOrder codeUnitCompare) out
          \<and> map (\<lambda>e. (label e, total e)) out
              = [(Some ''Alpha'', 5), (Some ''Beta'', 5), (Some ''Zeta'', 1)])"
proof -
  have ev: "map_sum id (map (\<lambda>e. (label e, total e)))
              (statsByBlock codeUnitCompare orderingRecords None)
            = Inr [(Some ''Alpha'', 5), (Some ''Beta'', 5), (Some ''Zeta'', 1)]"
    by code_simp
  from output_sorted [OF consistent_codeUnitCompare, of orderingRecords None]
  obtain out where out: "statsByBlock codeUnitCompare orderingRecords None = Inr out"
    "successively (inOrder codeUnitCompare) out" by blast
  from ev out(1) have "map (\<lambda>e. (label e, total e)) out
              = [(Some ''Alpha'', 5), (Some ''Beta'', 5), (Some ''Zeta'', 1)]" by simp
  with out consistent_codeUnitCompare show ?thesis by auto
qed

text \<open>
  C3.  Conservation: the totals of the output entries add up to the number of records
  whose normalized block name is not empty, and a record whose name is absent or
  normalizes to the empty string is among the records of no entry.
\<close>

theorem totals_conserved:
  "\<exists>out. statsByBlock lc cs g = Inr out
     \<and> sum_list (map total out) = length (filter (\<lambda>c. normalizeBlockName (block c) \<noteq> []) cs)
     \<and> (\<forall>c\<in>set cs. normalizeBlockName (block c) = [] \<longrightarrow>
            (\<forall>e\<in>set out. c \<notin> set (complaints e)))"
proof -
  let ?T = "pass2 (featuresOf g) (pass1 cs [])"
  from statsByBlock_result [of lc cs g] obtain out
    where out: "statsByBlock lc cs g = Inr out" "mset out = mset (mapValues ?T)" by blast
  have "sum_list (map total out) = sum_list (map total (mapValues ?T))"
    by (rule sum_list_permuted [OF out(2)])
  also have "\<dots> = sum_list (map (total \<circ> snd) ?T)" by (simp add: mapValues_def)
  also have "\<dots> = length (filter (\<lambda>c. normalizeBlockName (block c) \<noteq> []) cs)"
    by (simp add: total_pass2 total_pass1)
  finally have sum: "sum_list (map total out)
      = length (filter (\<lambda>c. normalizeBlockName (block c) \<noteq> []) cs)" .
  have "\<forall>c\<in>set cs. normalizeBlockName (block c) = [] \<longrightarrow> (\<forall>e\<in>set out. c \<notin> set (complaints e))"
  proof (intro ballI impI)
    fix c :: complaint and e :: stats
    assume c: "normalizeBlockName (block c) = []" and e: "e \<in> set out"
    from e have "(key e, e) \<in> set ?T" by (simp add: output_entry [OF out(1)])
    from table_entry [OF this] have k: "key e \<noteq> []" "complaints e = recordsOf (key e) cs"
      by simp_all
    show "c \<notin> set (complaints e)"
    proof
      assume "c \<in> set (complaints e)"
      with k(2) have "normalizeBlockName (block c) = key e" by (simp add: recordsOf_member)
      with c k(1) show False by simp
    qed
  qed
  with out(1) sum show ?thesis by blast
qed

theorem totals_conserved_witness:
  "\<exists>out. statsByBlock codeUnitCompare conservationRecords None = Inr out
     \<and> sum_list (map total out) = 2
     \<and> (\<forall>e\<in>set out. record_of 3 ''  '' \<notin> set (complaints e))"
proof -
  have n: "length (filter (\<lambda>c. normalizeBlockName (block c) \<noteq> []) conservationRecords) = 2"
    by code_simp
  have m: "record_of 3 ''  '' \<in> set conservationRecords"
    by (simp add: conservationRecords_def)
  have e: "normalizeBlockName (block (record_of 3 ''  '')) = []" by code_simp
  from totals_conserved [of codeUnitCompare conservationRecords None] n m e
  show ?thesis by auto
qed

text \<open>
  C4.  Coverage: every non-empty normalized name of a boundary feature is the key of
  exactly one output entry, whether or not a record maps to it; when no record does, the
  entry has total 0 and no records.
\<close>

theorem every_feature_covered:
  assumes "f \<in> set (featuresOf g)" and "normalizeBlockName (rawNameOf f) = k" and "k \<noteq> []"
  shows "\<exists>out. statsByBlock lc cs g = Inr out
           \<and> length (filter (\<lambda>e. key e = k) out) = 1
           \<and> (recordsOf k cs = [] \<longrightarrow>
                (\<forall>e\<in>set out. key e = k \<longrightarrow> total e = 0 \<and> complaints e = []))"
proof -
  let ?T = "pass2 (featuresOf g) (pass1 cs [])"
  from statsByBlock_result [of lc cs g] obtain out
    where out: "statsByBlock lc cs g = Inr out" "mset out = mset (mapValues ?T)" by blast
  from assms(1,2) have named: "featuresNamed k (featuresOf g) \<noteq> []"
    by (auto simp: featuresNamed_def filter_empty_conv)
  from table_has_key [of k cs "featuresOf g"] assms(3) named
  obtain e where e: "(k, e) \<in> set ?T" by blast
  have keyed: "\<forall>p\<in>set ?T. key (snd p) = fst p"
  proof
    fix p assume "p \<in> set ?T"
    then have "(fst p, snd p) \<in> set ?T" by simp
    from table_entry [OF this] show "key (snd p) = fst p" by simp
  qed
  have "length (filter (\<lambda>e. key e = k) out) = length (filter (\<lambda>e. key e = k) (mapValues ?T))"
    by (rule length_filter_permuted [OF out(2)])
  also have "\<dots> = length (filter (\<lambda>p. key (snd p) = k) ?T)"
    by (simp add: mapValues_def filter_map comp_def)
  also have "filter (\<lambda>p. key (snd p) = k) ?T = filter (\<lambda>p. fst p = k) ?T"
    using keyed by (intro filter_cong) auto
  also have "length (filter (\<lambda>p. fst p = k) ?T) = 1"
    by (rule distinct_key_once [OF distinct_table e])
  finally have once: "length (filter (\<lambda>e. key e = k) out) = 1" .
  have "recordsOf k cs = [] \<longrightarrow> (\<forall>e\<in>set out. key e = k \<longrightarrow> total e = 0 \<and> complaints e = [])"
  proof (intro impI ballI)
    fix e' :: stats
    assume none: "recordsOf k cs = []" and e': "e' \<in> set out" and k: "key e' = k"
    from e' have "(key e', e') \<in> set ?T" by (simp add: output_entry [OF out(1)])
    from table_entry [OF this] k none show "total e' = 0 \<and> complaints e' = []" by simp
  qed
  with out(1) once show ?thesis by blast
qed

theorem every_feature_covered_witness:
  "feature_of ''Hindol'' \<in> set (featuresOf (Some \<lparr>features = Some [feature_of ''Kamakhyanagar'', feature_of ''Hindol'']\<rparr>))
   \<and> normalizeBlockName (rawNameOf (feature_of ''Hindol'')) = ''hindol''
   \<and> recordsOf ''hindol'' [record_of 1 ''kamakhyanagar'', record_of 2 ''Kamakhyanagar '', record_of 3 ''KAMAKHYANAGAR''] = []
   \<and> (\<exists>out. statsByBlock codeUnitCompare
               [record_of 1 ''kamakhyanagar'', record_of 2 ''Kamakhyanagar '', record_of 3 ''KAMAKHYANAGAR'']
               (Some \<lparr>features = Some [feature_of ''Kamakhyanagar'', feature_of ''Hindol'']\<rparr>) = Inr out
          \<and> length (filter (\<lambda>e. key e = ''hindol'') out) = 1
          \<and> (\<forall>e\<in>set out. key e = ''hindol'' \<longrightarrow> total e = 0 \<and> complaints e = [])
          \<and> map (\<lambda>e. (label e, total e)) out = [(Some ''Kamakhyanagar'', 3), (Some ''Hindol'', 0)])"
proof -
  let ?cs = "[record_of 1 ''kamakhyanagar'', record_of 2 ''Kamakhyanagar '', record_of 3 ''KAMAKHYANAGAR'']"
  let ?g = "Some \<lparr>features = Some [feature_of ''Kamakhyanagar'', feature_of ''Hindol'']\<rparr>"
  have h1: "feature_of ''Hindol'' \<in> set (featuresOf ?g)" by (simp add: featuresOf_def)
  have h2: "normalizeBlockName (rawNameOf (feature_of ''Hindol'')) = ''hindol''" by code_simp
  have h3: "''hindol'' \<noteq> []" by simp
  have none: "recordsOf ''hindol'' ?cs = []" by code_simp
  have ev: "map_sum id (map (\<lambda>e. (label e, total e))) (statsByBlock codeUnitCompare ?cs ?g)
            = Inr [(Some ''Kamakhyanagar'', 3), (Some ''Hindol'', 0)]"
    by code_simp
  from every_feature_covered [OF h1 h2 h3, of codeUnitCompare ?cs] none
  obtain out where out: "statsByBlock codeUnitCompare ?cs ?g = Inr out"
    "length (filter (\<lambda>e. key e = ''hindol'') out) = 1"
    "\<forall>e\<in>set out. key e = ''hindol'' \<longrightarrow> total e = 0 \<and> complaints e = []"
    by blast
  from ev out(1) have "map (\<lambda>e. (label e, total e)) out
     = [(Some ''Kamakhyanagar'', 3), (Some ''Hindol'', 0)]" by simp
  with h1 h2 none out show ?thesis by auto
qed

text \<open>
  C5.  The severity classifier on the natural numbers: up to 3 is low, 4 and 5 are
  medium, 6 and more is high; the three labels differ, and every count gets one of them.
\<close>

theorem severity_thresholds:
  "(n \<le> 3 \<longrightarrow> getSeverity n = ''low'')
   \<and> (4 \<le> n \<and> n \<le> 5 \<longrightarrow> getSeverity n = ''medium'')
   \<and> (6 \<le> n \<longrightarrow> getSeverity n = ''high'')
   \<and> getSeverity n \<in> {''low'', ''medium'', ''high''}
   \<and> distinct [''low'', ''medium'', ''high'']"
  by (simp add: getSeverity_def thresholds_def)

theorem severity_thresholds_witness:
  "getSeverity 0 = ''low'' \<and> getSeverity 3 = ''low'' \<and> getSeverity 4 = ''medium''
   \<and> getSeverity 5 = ''medium'' \<and> getSeverity 6 = ''high'' \<and> getSeverity 40 = ''high''"
  using severity_thresholds [of 0] severity_thresholds [of 3] severity_thresholds [of 4]
    severity_thresholds [of 5] severity_thresholds [of 6] severity_thresholds [of 40]
  by simp

text \<open>
  C6.  A selection key that is not in the table should resolve to \<open>null\<close>.  It does for
  a key such as \<open>hindol\<close>, but the lookup view inherits from \<open>Object.prototype\<close>: with
  an empty table (a boundary dataset without a \<open>features\<close> array) a click on a polygon
  named \<open>Constructor\<close> selects the key \<open>constructor\<close>, the lookup returns the
  inherited function instead of \<open>null\<close>, and the detail modal is rendered.
\<close>

theorem stale_selection_inherited_property:
  "statsByBlock codeUnitCompare [] (Some \<lparr>features = None\<rparr>) = Inr []
   \<and> onEachFeature_click (feature_of ''Constructor'') None = Some ''constructor''
   \<and> ''constructor'' \<notin> key ` set []
   \<and> getProp (statsMap []) ''constructor'' = BuiltinFunction ''constructor''
   \<and> selected (statsMap []) (Some ''constructor'') = BuiltinFunction ''constructor''
   \<and> modalRendered (selected (statsMap []) (Some ''constructor''))
   \<and> selected (statsMap []) (Some ''hindol'') = Null"
proof -
  have 1: "statsByBlock codeUnitCompare [] (Some \<lparr>features = None\<rparr>) = Inr []" by code_simp
  have 2: "onEachFeature_click (feature_of ''Constructor'') None = Some ''constructor''" by code_simp
  have 3: "getProp (statsMap []) ''constructor'' = BuiltinFunction ''constructor''" by code_simp
  have 4: "selected (statsMap []) (Some ''constructor'') = BuiltinFunction ''constructor''"
    by code_simp
  have 5: "modalRendered (selected (statsMap []) (Some ''constructor''))" by code_simp
  have 6: "selected (statsMap []) (Some ''hindol'') = Null" by code_simp
  from 1 2 3 4 5 6 show ?thesis by simp
qed

text \<open>
  C7.  A boundary dataset that is absent, or that has no \<open>features\<close> array, is
  aggregated like one with an empty array: the output is the sorted table of pass 1
  alone, and the aggregation returns a result.
\<close>

theorem missing_features_as_empty:
  "statsByBlock lc cs None = statsByBlock lc cs (Some \<lparr>features = Some []\<rparr>)
   \<and> statsByBlock lc cs (Some \<lparr>features = None\<rparr>) = statsByBlock lc cs (Some \<lparr>features = Some []\<rparr>)
   \<and> statsByBlock lc cs None = sortStats lc (mapValues (pass1 cs []))
   \<and> (\<exists>out. statsByBlock lc cs None = Inr out \<and> mset out = mset (mapValues (pass1 cs [])))"
proof -
  have same: "pass2 [] (pass1 cs []) = pass1 cs []" by (simp add: pass2_def)
  from statsByBlock_result [of lc cs None]
  have "\<exists>out. statsByBlock lc cs None = Inr out \<and> mset out = mset (mapValues (pass1 cs []))"
    by (simp add: featuresOf_def same)
  then show ?thesis by (simp add: statsByBlock_def featuresOf_def same)
qed

theorem missing_features_as_empty_witness:
  "statsByBlock codeUnitCompare [record_of 1 ''Sadar''] None
     = Inr [\<lparr>key = ''sadar'', label = Some ''Sadar'', total = 1, complaints = [record_of 1 ''Sadar'']\<rparr>]
   \<and> statsByBlock codeUnitCompare [record_of 1 ''Sadar''] (Some \<lparr>features = Some []\<rparr>)
     = Inr [\<lparr>key = ''sadar'', label = Some ''Sadar'', total = 1, complaints = [record_of 1 ''Sadar'']\<rparr>]"
proof -
  have "statsByBlock codeUnitCompare [record_of 1 ''Sadar''] None
     = Inr [\<lparr>key = ''sadar'', label = Some ''Sadar'', total = 1, complaints = [record_of 1 ''Sadar'']\<rparr>]"
    by code_simp
  with missing_features_as_empty [of codeUnitCompare "[record_of 1 ''Sadar'']"]
  show ?thesis by simp
qed

text \<open>
  C9.  Every output entry has a non-empty key and a non-empty label.  A record that
  passes the key test of pass 1 has a non-empty raw block name, and when pass 2 creates
  an entry the raw name of the feature is non-empty, so \<open>rawName || "Unknown block"\<close>
  is the raw name and the fallback text is never taken.
\<close>

theorem entries_keyed_and_labelled:
  "(\<exists>out. statsByBlock lc cs g = Inr out
       \<and> (\<forall>e\<in>set out. key e \<noteq> [] \<and> (\<exists>s. label e = Some s \<and> s \<noteq> [])))
   \<and> (normalizeBlockName (block c) \<noteq> [] \<longrightarrow> (\<exists>s. block c = Some s \<and> s \<noteq> []))
   \<and> (normalizeBlockName (rawNameOf f) \<noteq> [] \<and> \<not> mapHas m (normalizeBlockName (rawNameOf f)) \<longrightarrow>
        orString (rawNameOf f) ''Unknown block'' \<noteq> [] \<and>
        Some (orString (rawNameOf f) ''Unknown block'') = rawNameOf f \<and>
        map_of (pass2_step m f) (normalizeBlockName (rawNameOf f))
          = Some \<lparr>key = normalizeBlockName (rawNameOf f), label = rawNameOf f,
                   total = 0, complaints = []\<rparr>)"
proof -
  let ?T = "pass2 (featuresOf g) (pass1 cs [])"
  from statsByBlock_result [of lc cs g] obtain out
    where out: "statsByBlock lc cs g = Inr out" by blast
  have "\<forall>e\<in>set out. key e \<noteq> [] \<and> (\<exists>s. label e = Some s \<and> s \<noteq> [])"
  proof
    fix e :: stats
    assume "e \<in> set out"
    then have "(key e, e) \<in> set ?T" by (simp add: output_entry [OF out])
    from table_entry [OF this] show "key e \<noteq> [] \<and> (\<exists>s. label e = Some s \<and> s \<noteq> [])" by simp
  qed
  with out have first: "\<exists>out. statsByBlock lc cs g = Inr out
       \<and> (\<forall>e\<in>set out. key e \<noteq> [] \<and> (\<exists>s. label e = Some s \<and> s \<noteq> []))" by blast
  have second: "normalizeBlockName (block c) \<noteq> [] \<longrightarrow> (\<exists>s. block c = Some s \<and> s \<noteq> [])"
    using normalizeBlockName_nonempty by blast
  have third: "normalizeBlockName (rawNameOf f) \<noteq> [] \<and> \<not> mapHas m (normalizeBlockName (rawNameOf f)) \<longrightarrow>
        orString (rawNameOf f) ''Unknown block'' \<noteq> [] \<and>
        Some (orString (rawNameOf f) ''Unknown block'') = rawNameOf f \<and>
        map_of (pass2_step m f) (normalizeBlockName (rawNameOf f))
          = Some \<lparr>key = normalizeBlockName (rawNameOf f), label = rawNameOf f,
                   total = 0, complaints = []\<rparr>"
  proof
    assume a: "normalizeBlockName (rawNameOf f) \<noteq> [] \<and> \<not> mapHas m (normalizeBlockName (rawNameOf f))"
    then obtain s where s: "rawNameOf f = Some s" "s \<noteq> []"
      using normalizeBlockName_nonempty by blast
    from a show "orString (rawNameOf f) ''Unknown block'' \<noteq> [] \<and>
        Some (orString (rawNameOf f) ''Unknown block'') = rawNameOf f \<and>
        map_of (pass2_step m f) (normalizeBlockName (rawNameOf f))
          = Some \<lparr>key = normalizeBlockName (rawNameOf f), label = rawNameOf f,
                   total = 0, complaints = []\<rparr>"
      by (simp add: s orString_present pass2_step_def Let_def map_of_mapSet)
  qed
  from first second third show ?thesis by blast
qed

theorem entries_keyed_and_labelled_witness:
  "(\<exists>out. statsByBlock codeUnitCompare [record_of 1 '' Sadar'']
            (Some \<lparr>features = Some [feature_of ''Hindol '', feature_of ''  '', \<lparr>properties = None\<rparr>]\<rparr>) = Inr out
       \<and> (\<forall>e\<in>set out. key e \<noteq> [] \<and> (\<exists>s. label e = Some s \<and> s \<noteq> []))
       \<and> map (\<lambda>e. (key e, label e)) out = [(''sadar'', Some '' Sadar''), (''hindol'', Some ''Hindol '')])
   \<and> map_of (pass2_step [] (feature_of ''Hindol '')) ''hindol''
        = Some \<lparr>key = ''hindol'', label = Some ''Hindol '', total = 0, complaints = []\<rparr>"
proof -
  let ?cs = "[record_of 1 '' Sadar'']"
  let ?g = "Some \<lparr>features = Some [feature_of ''Hindol '', feature_of ''  '', \<lparr>properties = None\<rparr>]\<rparr>"
  have ev: "map_sum id (map (\<lambda>e. (key e, label e))) (statsByBlock codeUnitCompare ?cs ?g)
            = Inr [(''sadar'', Some '' Sadar''), (''hindol'', Some ''Hindol '')]"
    by code_simp
  have n: "normalizeBlockName (rawNameOf (feature_of ''Hindol '')) = ''hindol''" by code_simp
  have r: "rawNameOf (feature_of ''Hindol '') = Some ''Hindol ''" by code_simp
  have h: "\<not> mapHas [] ''hindol''" by (simp add: mapHas_def)
  note inst = entries_keyed_and_labelled [of codeUnitCompare ?cs ?g "record_of 1 '' Sadar''"
      "feature_of ''Hindol ''" "[]"]
  from inst obtain out where out: "statsByBlock codeUnitCompare ?cs ?g = Inr out"
    "\<forall>e\<in>set out. key e \<noteq> [] \<and> (\<exists>s. label e = Some s \<and> s \<noteq> [])" by blast
  from ev out(1) have m: "map (\<lambda>e. (key e, label e)) out
      = [(''sadar'', Some '' Sadar''), (''hindol'', Some ''Hindol '')]" by simp
  from inst n r h have "map_of (pass2_step [] (feature_of ''Hindol '')) ''hindol''
        = Some \<lparr>key = ''hindol'', label = Some ''Hindol '', total = 0, complaints = []\<rparr>"
    by simp
  with out m show ?thesis by auto
qed

text \<open>
  C10.  A click on a polygon whose raw name is absent or normalizes to the empty string
  stores the empty string as the selection key; the lookup then yields \<open>null\<close> as it
  does for no selection, whatever the lookup view holds, and no modal is rendered.
\<close>

theorem unnamed_polygon_click:
  assumes "normalizeBlockName (rawNameOf f) = []"
  shows "onEachFeature_click f sel = Some []
       \<and> selected sm (onEachFeature_click f sel) = Null
       \<and> selected sm (onEachFeature_click f sel) = selected sm None
       \<and> \<not> modalRendered (selected sm (onEachFeature_click f sel))"
  using assms
  by (simp add: onEachFeature_click_def onEachFeature_key_def normalizeBlockName_orString selected_def
      modalRendered_def isTruthy_def)

theorem unnamed_polygon_click_witness:
  "normalizeBlockName (rawNameOf \<lparr>properties = None\<rparr>) = []
   \<and> normalizeBlockName (rawNameOf (feature_of ''  '')) = []
   \<and> onEachFeature_click \<lparr>properties = None\<rparr> None = Some []
   \<and> onEachFeature_click (feature_of ''  '') (Some ''hindol'') = Some []
   \<and> selected (statsMap []) (onEachFeature_click \<lparr>properties = None\<rparr> None) = Null
   \<and> \<not> modalRendered (selected (statsMap []) (onEachFeature_click (feature_of ''  '') (Some ''hindol'')))"
proof -
  have a: "normalizeBlockName (rawNameOf \<lparr>properties = None\<rparr>) = []" by code_simp
  have b: "normalizeBlockName (rawNameOf (feature_of ''  '')) = []" by code_simp
  from unnamed_polygon_click [OF a, of None "statsMap []"]
       unnamed_polygon_click [OF b, of "Some ''hindol''" "statsMap []"] a b
  show ?thesis by blast
qed

end
